theory Spec2Isabelle
  imports Complex_Main "HOL-Library.Multiset" "HOL-Library.Char_ord" "HOL-Library.List_Lexorder"
begin

section \<open>Values\<close>

text \<open>
  The unifier of \<^verbatim>\<open>src/main.py\<close> works on what \<^verbatim>\<open>json.load\<close> returns: \<^verbatim>\<open>None\<close>,
  booleans, unbounded integers, floats, strings, lists and dicts. A float is represented
  by the rational number it denotes (JSON itself has neither NaN nor infinities, and
  the ones that \<^verbatim>\<open>json.load\<close> reads from the words \<^verbatim>\<open>NaN\<close> and \<^verbatim>\<open>Infinity\<close> are not
  values here), a string by the UTF-8 bytes of its text (a string with a lone surrogate
  has none and is not a value here), and a dict by its items in insertion order, keys
  distinct.
\<close>

datatype json =
    JNull
  | JBool bool
  | JInt int
  | JFloat rat
  | JStr string
  | JList "json list"
  | JDict "(string \<times> json) list"

type_synonym dict = "(string \<times> json) list"

text \<open>The exceptions that can occur; all of them are subclasses of \<^verbatim>\<open>Exception\<close>.\<close>

datatype error =
    AttributeError
  | KeyError
  | TypeError
  | ValueError string
  | OverflowError
  | OSError

subsection \<open>Built-in operations of the language\<close>

text \<open>\<^verbatim>\<open>d.get(k, default)\<close> and \<^verbatim>\<open>d[k]\<close> on a dict.\<close>

definition dict_get :: "dict \<Rightarrow> string \<Rightarrow> json \<Rightarrow> json" where
  "dict_get d k dflt = (case map_of d k of Some v \<Rightarrow> v | None \<Rightarrow> dflt)"

definition dict_getitem :: "dict \<Rightarrow> string \<Rightarrow> error + json" where
  "dict_getitem d k = (case map_of d k of Some v \<Rightarrow> Inr v | None \<Rightarrow> Inl KeyError)"

text \<open>\<^verbatim>\<open>isinstance(v, (int, float))\<close>: \<^verbatim>\<open>bool\<close> is a subclass of \<^verbatim>\<open>int\<close>.\<close>

fun isinstance_int_float :: "json \<Rightarrow> bool" where
  "isinstance_int_float (JBool b) = True"
| "isinstance_int_float (JInt i) = True"
| "isinstance_int_float (JFloat r) = True"
| "isinstance_int_float v = False"

fun isinstance_str :: "json \<Rightarrow> bool" where
  "isinstance_str (JStr s) = True"
| "isinstance_str v = False"

text \<open>\<^verbatim>\<open>sub in s\<close> (substring test) and \<^verbatim>\<open>s.endswith(suf)\<close> on strings.\<close>

fun str_in :: "string \<Rightarrow> string \<Rightarrow> bool" where
  "str_in sub [] = (sub = [])"
| "str_in sub (c # s) = (take (length sub) (c # s) = sub \<or> str_in sub s)"

definition endswith :: "string \<Rightarrow> string \<Rightarrow> bool" where
  "endswith s suf = (length suf \<le> length s \<and> drop (length s - length suf) s = suf)"

text \<open>
  The numeric value of a number; \<^verbatim>\<open>True\<close> and \<^verbatim>\<open>False\<close> count as 1 and 0, and an
  integer is compared with a float by value.
\<close>

fun num_of :: "json \<Rightarrow> rat option" where
  "num_of (JBool b) = Some (if b then 1 else 0)"
| "num_of (JInt i) = Some (of_int i)"
| "num_of (JFloat r) = Some r"
| "num_of v = None"

text \<open>Strings are ordered by code point, which is the byte order of UTF-8.\<close>

fun str_lt :: "string \<Rightarrow> string \<Rightarrow> bool" where
  "str_lt [] [] = False"
| "str_lt [] (d # t) = True"
| "str_lt (c # s) [] = False"
| "str_lt (c # s) (d # t) =
     (if (of_char c :: nat) < of_char d then True
      else if (of_char d :: nat) < of_char c then False
      else str_lt s t)"

text \<open>
  \<^verbatim>\<open>a == b\<close>: never raises. Numbers are equal by value, lists elementwise, dicts when
  they have the same number of items and every item of the one is in the other.
\<close>

fun py_eq :: "json \<Rightarrow> json \<Rightarrow> bool"
and py_eq_list :: "json list \<Rightarrow> json list \<Rightarrow> bool"
and py_eq_items :: "dict \<Rightarrow> dict \<Rightarrow> bool" where
  "py_eq JNull b = (b = JNull)"
| "py_eq (JBool x) b = (num_of b = Some (if x then 1 else 0))"
| "py_eq (JInt i) b = (num_of b = Some (of_int i))"
| "py_eq (JFloat r) b = (num_of b = Some r)"
| "py_eq (JStr s) b = (b = JStr s)"
| "py_eq (JList xs) b = (case b of JList ys \<Rightarrow> py_eq_list xs ys | _ \<Rightarrow> False)"
| "py_eq (JDict d) b =
     (case b of JDict e \<Rightarrow> length d = length e \<and> py_eq_items d e | _ \<Rightarrow> False)"
| "py_eq_list [] ys = (ys = [])"
| "py_eq_list (x # xs) ys =
     (case ys of [] \<Rightarrow> False | y # ys' \<Rightarrow> py_eq x y \<and> py_eq_list xs ys')"
| "py_eq_items [] e = True"
| "py_eq_items ((k, v) # d) e =
     (case map_of e k of None \<Rightarrow> False | Some w \<Rightarrow> py_eq v w \<and> py_eq_items d e)"

text \<open>
  \<^verbatim>\<open>a < b\<close>: defined between two numbers, between two strings, and between two lists
  (at the first position where they differ, or by length); every other combination
  raises \<^verbatim>\<open>TypeError\<close>, \<^verbatim>\<open>None < None\<close> and a comparison of two dicts included.
\<close>

fun py_lt :: "json \<Rightarrow> json \<Rightarrow> error + bool"
and py_lt_list :: "json list \<Rightarrow> json list \<Rightarrow> error + bool" where
  "py_lt (JList xs) b = (case b of JList ys \<Rightarrow> py_lt_list xs ys | _ \<Rightarrow> Inl TypeError)"
| "py_lt (JStr s) b = (case b of JStr t \<Rightarrow> Inr (str_lt s t) | _ \<Rightarrow> Inl TypeError)"
| "py_lt JNull b = Inl TypeError"
| "py_lt (JDict d) b = Inl TypeError"
| "py_lt a b =
     (case (num_of a, num_of b) of
        (Some x, Some y) \<Rightarrow> Inr (x < y)
      | _ \<Rightarrow> Inl TypeError)"
| "py_lt_list [] ys = Inr (ys \<noteq> [])"
| "py_lt_list (x # xs) ys =
     (case ys of [] \<Rightarrow> Inr False
      | y # ys' \<Rightarrow> if py_eq x y then py_lt_list xs ys' else py_lt x y)"

subsection \<open>Printing a value\<close>

text \<open>
  \<^verbatim>\<open>print(f"... {v}")\<close> formats \<^verbatim>\<open>v\<close> with \<^verbatim>\<open>str\<close>, which writes every integer inside
  \<^verbatim>\<open>v\<close> in decimal. CPython (from 3.11 on, and the later releases of 3.7 to 3.10) refuses to
  convert an integer of more than 4300 digits, the default of
  \<^verbatim>\<open>sys.get_int_max_str_digits()\<close>, and raises \<^verbatim>\<open>ValueError\<close>. The other ways in which
  a \<^verbatim>\<open>print\<close> can fail are properties of the process and not of the value alone, and
  are left out: the standard output is taken to be open and to encode every text, as
  UTF-8 does, and a value is taken to be nested less deep than the recursion limit of
  the interpreter, as the values are that \<^verbatim>\<open>json.load\<close>, bound by the same limit,
  returns. The text that is written to the standard output is not part of the model.
\<close>

definition int_str_raises :: "int \<Rightarrow> bool" where
  "int_str_raises i = (10 ^ 4300 \<le> \<bar>i\<bar>)"

fun str_raises :: "json \<Rightarrow> bool"
and str_raises_list :: "json list \<Rightarrow> bool"
and str_raises_items :: "dict \<Rightarrow> bool" where
  "str_raises (JInt i) = int_str_raises i"
| "str_raises (JList xs) = str_raises_list xs"
| "str_raises (JDict d) = str_raises_items d"
| "str_raises v = False"
| "str_raises_list [] = False"
| "str_raises_list (x # xs) = (str_raises x \<or> str_raises_list xs)"
| "str_raises_items [] = False"
| "str_raises_items ((k, v) # d) = (str_raises v \<or> str_raises_items d)"

definition py_print :: "json \<Rightarrow> error + unit" where
  "py_print v =
     (if str_raises v
      then Inl (ValueError (''Exceeds the limit (4300 digits) for integer string conversion; '' @
                            ''use sys.set_int_max_str_digits() to increase the limit''))
      else Inr ())"

subsection \<open>\<^verbatim>\<open>list.sort(key=...)\<close>\<close>

text \<open>
  \<^verbatim>\<open>list.sort\<close> first computes the key of every element, then sorts on the keys with
  \<^verbatim>\<open><\<close> alone, stably; an exception of the key function or of a comparison leaves the
  call. The model is a straight insertion sort, from left to right, which asks
  \<^verbatim>\<open>pivot < element\<close> as the binary insertion of CPython does. It makes no comparison
  on fewer than two elements and the comparison \<^verbatim>\<open>key[1] < key[0]\<close> on two, as
  CPython; when no comparison raises and the keys are totally ordered the result is the
  one stable sorted arrangement, whatever the algorithm. With keys that are all
  numbers, strings, \<^verbatim>\<open>None\<close> or dicts it raises exactly when CPython does (a sort
  of two or more elements has to compare across any two kinds present).
\<close>

fun sort_insert :: "json \<times> 'a \<Rightarrow> (json \<times> 'a) list \<Rightarrow> error + (json \<times> 'a) list" where
  "sort_insert pivot [] = Inr [pivot]"
| "sort_insert pivot (q # qs) =
     (case py_lt (fst pivot) (fst q) of
        Inl e \<Rightarrow> Inl e
      | Inr True \<Rightarrow> Inr (pivot # q # qs)
      | Inr False \<Rightarrow>
          (case sort_insert pivot qs of
             Inl e \<Rightarrow> Inl e
           | Inr r \<Rightarrow> Inr (q # r)))"

fun sort_run :: "(json \<times> 'a) list \<Rightarrow> (json \<times> 'a) list \<Rightarrow> error + (json \<times> 'a) list" where
  "sort_run [] sorted_part = Inr sorted_part"
| "sort_run (p # ps) sorted_part =
     (case sort_insert p sorted_part of
        Inl e \<Rightarrow> Inl e
      | Inr sorted_part' \<Rightarrow> sort_run ps sorted_part')"

fun sort_keys :: "('a \<Rightarrow> error + json) \<Rightarrow> 'a list \<Rightarrow> error + (json \<times> 'a) list" where
  "sort_keys key [] = Inr []"
| "sort_keys key (x # xs) =
     (case key x of
        Inl e \<Rightarrow> Inl e
      | Inr k \<Rightarrow>
          (case sort_keys key xs of
             Inl e \<Rightarrow> Inl e
           | Inr ks \<Rightarrow> Inr ((k, x) # ks)))"

definition list_sort :: "('a \<Rightarrow> error + json) \<Rightarrow> 'a list \<Rightarrow> error + 'a list" where
  "list_sort key xs =
     (case sort_keys key xs of
        Inl e \<Rightarrow> Inl e
      | Inr ks \<Rightarrow>
          (case sort_run ks [] of
             Inl e \<Rightarrow> Inl e
           | Inr r \<Rightarrow> Inr (map snd r)))"

section \<open>The class \<^verbatim>\<open>DataUnifier\<close>\<close>

text \<open>
  \<^verbatim>\<open>iso_to_milliseconds\<close> calls the standard library: \<^verbatim>\<open>datetime.fromisoformat\<close>,
  \<^verbatim>\<open>datetime.timestamp\<close> (which reads the time zone of the host when the text has no
  offset) and a float multiplication. These lines are a parameter of the model: a
  function from the text to the integer \<^verbatim>\<open>int(dt.timestamp() * 1000)\<close> or to the
  exception raised on the way.
\<close>

type_synonym host = "string \<Rightarrow> error + int"

text \<open>
  \<^verbatim>\<open>iso_to_milliseconds\<close>, lines 14 to 38. An argument that is not a string has no
  \<^verbatim>\<open>endswith\<close>: the \<^verbatim>\<open>AttributeError\<close> passes the handler, which is for
  \<^verbatim>\<open>ValueError\<close> only. A \<^verbatim>\<open>ValueError\<close> is raised again with the text that was
  parsed, the \<^verbatim>\<open>Z\<close> already removed.
\<close>

definition iso_to_milliseconds :: "host \<Rightarrow> json \<Rightarrow> error + int" where
  "iso_to_milliseconds lib iso_timestamp =
     (case iso_timestamp of
        JStr s \<Rightarrow>
          (let s' = (if endswith s ''Z'' then butlast s else s) in
           case lib s' of
             Inr milliseconds \<Rightarrow> Inr milliseconds
           | Inl (ValueError m) \<Rightarrow> Inl (ValueError (''Invalid ISO timestamp format: '' @ s'))
           | Inl e \<Rightarrow> Inl e)
      | _ \<Rightarrow> Inl AttributeError)"

text \<open>
  \<^verbatim>\<open>normalize_data_format_1\<close>, lines 40 to 59. Only a dict has \<^verbatim>\<open>get\<close>; on anything
  else the first \<^verbatim>\<open>data.get\<close> raises \<^verbatim>\<open>AttributeError\<close>.
\<close>

definition normalize_data_format_1 :: "json \<Rightarrow> error + dict" where
  "normalize_data_format_1 data =
     (case data of
        JDict d \<Rightarrow>
          Inr [(''timestamp'', dict_get d ''timestamp'' JNull),
               (''message'', dict_get d ''message'' (JStr '''')),
               (''value'', dict_get d ''value'' (JInt 0)),
               (''source'', JStr ''format_1''),
               (''metadata'', dict_get d ''metadata'' (JDict []))]
      | _ \<Rightarrow> Inl AttributeError)"

text \<open>\<^verbatim>\<open>normalize_data_format_2\<close>, lines 61 to 84.\<close>

definition normalize_data_format_2 :: "host \<Rightarrow> json \<Rightarrow> error + dict" where
  "normalize_data_format_2 lib data =
     (case data of
        JDict d \<Rightarrow>
          (let iso_timestamp = dict_get d ''timestamp'' (dict_get d ''time'' (JStr '''')) in
           case iso_to_milliseconds lib iso_timestamp of
             Inl e \<Rightarrow> Inl e
           | Inr millisecond_timestamp \<Rightarrow>
               Inr [(''timestamp'', JInt millisecond_timestamp),
                    (''message'', dict_get d ''message'' (dict_get d ''msg'' (JStr ''''))),
                    (''value'', dict_get d ''value'' (dict_get d ''val'' (JInt 0))),
                    (''source'', JStr ''format_2''),
                    (''metadata'', dict_get d ''metadata'' (dict_get d ''meta'' (JDict [])))])
      | _ \<Rightarrow> Inl AttributeError)"

text \<open>\<^verbatim>\<open>detect_data_format\<close>, lines 86 to 107.\<close>

definition detect_data_format :: "json \<Rightarrow> error + string" where
  "detect_data_format data =
     (case data of
        JDict d \<Rightarrow>
          (let timestamp = dict_get d ''timestamp'' (dict_get d ''time'' (JStr '''')) in
           if isinstance_int_float timestamp then Inr ''format_1''
           else if isinstance_str timestamp \<and>
                   (case timestamp of
                      JStr s \<Rightarrow> str_in ''T'' s \<or> str_in ''Z'' s
                    | _ \<Rightarrow> False)
                then Inr ''format_2''
           else Inr ''format_1'')
      | _ \<Rightarrow> Inl AttributeError)"

text \<open>
  \<^verbatim>\<open>unify_data\<close>, lines 109 to 142. \<open>process_entry\<close> is the body of the \<^verbatim>\<open>try\<close>
  (lines 123 to 132). \<open>handler\<close> is the \<^verbatim>\<open>except\<close> block (lines 134 to 137): it prints
  the entry, then the exception, whose text is the name of an attribute or the text that
  was parsed and can always be written; an exception of the first print leaves
  \<^verbatim>\<open>unify_data\<close>, since no handler covers the handler. \<open>unify_loop\<close> is the \<^verbatim>\<open>for\<close>
  loop, and the sort comes after the loop, outside the \<^verbatim>\<open>try\<close>.
\<close>

definition process_entry :: "host \<Rightarrow> json \<Rightarrow> error + dict" where
  "process_entry lib data_entry =
     (case detect_data_format data_entry of
        Inl e \<Rightarrow> Inl e
      | Inr format_type \<Rightarrow>
          if format_type = ''format_1'' then normalize_data_format_1 data_entry
          else normalize_data_format_2 lib data_entry)"

definition handler :: "json \<Rightarrow> error \<Rightarrow> error + unit" where
  "handler data_entry e = py_print data_entry"

fun unify_loop :: "host \<Rightarrow> json list \<Rightarrow> dict list \<Rightarrow> error + dict list" where
  "unify_loop lib [] unified_results = Inr unified_results"
| "unify_loop lib (data_entry # rest) unified_results =
     (case process_entry lib data_entry of
        Inr normalized \<Rightarrow> unify_loop lib rest (unified_results @ [normalized])
      | Inl e \<Rightarrow>
          (case handler data_entry e of
             Inl e' \<Rightarrow> Inl e'
           | Inr u \<Rightarrow> unify_loop lib rest unified_results))"

definition unify_data :: "host \<Rightarrow> json list \<Rightarrow> error + dict list" where
  "unify_data lib data_list =
     (case unify_loop lib data_list [] of
        Inl e \<Rightarrow> Inl e
      | Inr unified_results \<Rightarrow>
          list_sort (\<lambda>x. dict_getitem x ''timestamp'') unified_results)"

text \<open>
  The records that the body of the \<^verbatim>\<open>try\<close> normalizes without an exception, in the
  order of the input: what the loop leaves in \<^verbatim>\<open>unified_results\<close> when it ends. The
  sort key of a record, \<^verbatim>\<open>x["timestamp"]\<close>, is the value \<open>timestamp\<close> (every canonical
  record has the key).
\<close>

definition timestamp :: "dict \<Rightarrow> json" where
  "timestamp x = dict_get x ''timestamp'' JNull"

definition successfully_normalized :: "host \<Rightarrow> json list \<Rightarrow> dict list" where
  "successfully_normalized lib data_list =
     concat (map (\<lambda>data_entry.
       case process_entry lib data_entry of Inr normalized \<Rightarrow> [normalized] | Inl e \<Rightarrow> [])
       data_list)"

subsection \<open>A host for the examples\<close>

text \<open>
  The library on a host whose time zone is UTC, tabulated on one text: 2023-10-15
  14:30:45 is 1697380245 seconds after the epoch. It rejects every other text, which
  is what the library does with the other texts of the examples below.
\<close>

definition utc_host :: host where
  "utc_host s =
     (if s = ''2023-10-15T14:30:45'' then Inr 1697380245000
      else Inl (ValueError ''Invalid isoformat string''))"

section \<open>The classifier as the specification words it\<close>

datatype shape = shape_numeric | shape_textual

fun tag :: "shape \<Rightarrow> string" where
  "tag shape_numeric = ''format_1''"
| "tag shape_textual = ''format_2''"

text \<open>
  The value at key \<^verbatim>\<open>timestamp\<close>, else the value at key \<^verbatim>\<open>time\<close>, else the empty
  string; numeric gives \<open>shape_numeric\<close>, a text with a \<^verbatim>\<open>T\<close> or a \<^verbatim>\<open>Z\<close> in it
  \<open>shape_textual\<close>, everything else \<open>shape_numeric\<close>.
\<close>

definition timestamp_field :: "dict \<Rightarrow> json" where
  "timestamp_field d =
     (case map_of d ''timestamp'' of
        Some v \<Rightarrow> v
      | None \<Rightarrow> (case map_of d ''time'' of Some v \<Rightarrow> v | None \<Rightarrow> JStr ''''))"

fun classify_spec_value :: "json \<Rightarrow> shape" where
  "classify_spec_value (JBool b) = shape_numeric"
| "classify_spec_value (JInt i) = shape_numeric"
| "classify_spec_value (JFloat r) = shape_numeric"
| "classify_spec_value (JStr s) =
     (if CHR ''T'' \<in> set s \<or> CHR ''Z'' \<in> set s then shape_textual else shape_numeric)"
| "classify_spec_value v = shape_numeric"

definition classify_spec :: "dict \<Rightarrow> shape" where
  "classify_spec d = classify_spec_value (timestamp_field d)"

section \<open>The date-time library as the specification words it\<close>

text \<open>
  Modelled from the spec: the standard library behind \<open>iso_to_milliseconds\<close>
  (\<^verbatim>\<open>datetime.fromisoformat\<close>, \<^verbatim>\<open>datetime.timestamp\<close>) is not code of the repository.
  Section 4.1 of the specification describes it: the text is a date, a \<^verbatim>\<open>T\<close>, a time,
  an optional fraction of a second and an optional offset from UTC; the point in time is
  turned into seconds since the epoch as a real number, multiplied by 1000 and
  truncated; a text without an offset is a local time of the host. The definitions of
  this section follow these words, with the time zone of the host as a parameter.
\<close>

text \<open>Modelled from the spec: a decimal digit, and a number written with digits only.\<close>

definition digit :: "char \<Rightarrow> nat option" where
  "digit c = (if 48 \<le> (of_char c :: nat) \<and> (of_char c :: nat) \<le> 57
              then Some (of_char c - 48) else None)"

fun digits_value :: "nat \<Rightarrow> string \<Rightarrow> nat option" where
  "digits_value acc [] = Some acc"
| "digits_value acc (c # s) =
     (case digit c of None \<Rightarrow> None | Some d \<Rightarrow> digits_value (10 * acc + d) s)"

definition number :: "string \<Rightarrow> nat option" where
  "number s = (if s = [] then None else digits_value 0 s)"

text \<open>
  Modelled from the spec: the calendar. The days of a month, and the seconds from
  1970-01-01T00:00:00 to a date and time of day, both read on the same clock.
\<close>

definition is_leap :: "nat \<Rightarrow> bool" where
  "is_leap y = (y mod 4 = 0 \<and> (y mod 100 \<noteq> 0 \<or> y mod 400 = 0))"

definition days_in_month :: "nat \<Rightarrow> nat \<Rightarrow> nat" where
  "days_in_month y m =
     (if m = 2 then (if is_leap y then 29 else 28)
      else if m = 4 \<or> m = 6 \<or> m = 9 \<or> m = 11 then 30 else 31)"

definition days_before_year :: "nat \<Rightarrow> nat" where
  "days_before_year y = 365 * (y - 1) + (y - 1) div 4 - (y - 1) div 100 + (y - 1) div 400"

definition days_before_month :: "nat \<Rightarrow> nat \<Rightarrow> nat" where
  "days_before_month y m =
     [0, 31, 59, 90, 120, 151, 181, 212, 243, 273, 304, 334] ! (m - 1) +
     (if 2 < m \<and> is_leap y then 1 else 0)"

definition seconds_since_epoch :: "nat \<Rightarrow> nat \<Rightarrow> nat \<Rightarrow> nat \<Rightarrow> nat \<Rightarrow> nat \<Rightarrow> int" where
  "seconds_since_epoch y m d hh mm ss =
     (int (days_before_year y + days_before_month y m + d) - 719163) * 86400 +
     int (hh * 3600 + mm * 60 + ss)"

text \<open>
  Modelled from the spec: a parsed date-time: the seconds its date and time of day
  make on their own clock, the fraction of a second, and the offset from UTC in seconds
  when the text has one.
\<close>

record datetime =
  wall_seconds :: int
  fraction :: rat
  utc_offset :: "int option"

text \<open>Modelled from the spec: the optional fraction, a point and digits.\<close>

definition parse_fraction :: "string \<Rightarrow> (rat \<times> string) option" where
  "parse_fraction s =
     (case s of
        [] \<Rightarrow> Some (0, [])
      | c # t \<Rightarrow>
          if c = CHR ''.'' then
            (let ds = takeWhile (\<lambda>c. digit c \<noteq> None) t in
             case number ds of
               None \<Rightarrow> None
             | Some n \<Rightarrow> Some (of_nat n / 10 ^ length ds, drop (length ds) t))
          else Some (0, s))"

text \<open>Modelled from the spec: the optional offset, a sign, hours, a colon and minutes.\<close>

definition parse_offset :: "string \<Rightarrow> int option option" where
  "parse_offset s =
     (if s = [] then Some None
      else if length s = 6 \<and> (s ! 0 = CHR ''+'' \<or> s ! 0 = CHR ''-'') \<and> s ! 3 = CHR '':'' then
        (case (number (take 2 (drop 1 s)), number (drop 4 s)) of
           (Some hh, Some mm) \<Rightarrow>
             if hh < 24 \<and> mm < 60 then
               Some (Some ((if s ! 0 = CHR ''-'' then - 1 else 1) * int (hh * 3600 + mm * 60)))
             else None
         | _ \<Rightarrow> None)
      else None)"

text \<open>
  Modelled from the spec: the grammar of a date-time: the date
  \<^verbatim>\<open>YYYY-MM-DD\<close>, the separator \<^verbatim>\<open>T\<close>, the time \<^verbatim>\<open>HH:MM:SS\<close>, then the optional
  fraction and the optional offset; a text that does not conform is not parsed.
\<close>

definition parse_datetime :: "string \<Rightarrow> datetime option" where
  "parse_datetime s =
     (if 19 \<le> length s \<and> s ! 4 = CHR ''-'' \<and> s ! 7 = CHR ''-'' \<and> s ! 10 = CHR ''T'' \<and>
         s ! 13 = CHR '':'' \<and> s ! 16 = CHR '':'' then
        (case (number (take 4 s), number (take 2 (drop 5 s)), number (take 2 (drop 8 s)),
               number (take 2 (drop 11 s)), number (take 2 (drop 14 s)),
               number (take 2 (drop 17 s))) of
           (Some y, Some m, Some d, Some hh, Some mm, Some ss) \<Rightarrow>
             if 1 \<le> y \<and> 1 \<le> m \<and> m \<le> 12 \<and> 1 \<le> d \<and> d \<le> days_in_month y m \<and>
                hh < 24 \<and> mm < 60 \<and> ss < 60 then
               (case parse_fraction (drop 19 s) of
                  None \<Rightarrow> None
                | Some (fr, rest) \<Rightarrow>
                    (case parse_offset rest of
                       None \<Rightarrow> None
                     | Some off \<Rightarrow>
                         Some \<lparr>wall_seconds = seconds_since_epoch y m d hh mm ss,
                               fraction = fr, utc_offset = off\<rparr>))
             else None
         | _ \<Rightarrow> None)
      else None)"

text \<open>
  Modelled from the spec: seconds since the epoch as a real number, times 1000,
  truncated and not rounded. The offset of the text is taken when there is one;
  otherwise the text is a local time of the host, whose zone \<open>zone\<close> gives the offset
  from UTC, in seconds, that holds at a local time.
\<close>

definition trunc_toward_zero :: "rat \<Rightarrow> int" where
  "trunc_toward_zero x = (if 0 \<le> x then \<lfloor>x\<rfloor> else \<lceil>x\<rceil>)"

definition epoch_millis :: "(int \<Rightarrow> int) \<Rightarrow> datetime \<Rightarrow> int" where
  "epoch_millis zone dt =
     trunc_toward_zero
       ((of_int (wall_seconds dt -
                 (case utc_offset dt of Some off \<Rightarrow> off | None \<Rightarrow> zone (wall_seconds dt))) +
         fraction dt) * 1000)"

text \<open>
  Modelled from the spec: the library on a host with the time zone \<open>zone\<close>: the
  milliseconds of a text that conforms to the grammar, and \<^verbatim>\<open>ValueError\<close> for any other.
\<close>

definition library :: "(int \<Rightarrow> int) \<Rightarrow> host" where
  "library zone s =
     (case parse_datetime s of
        None \<Rightarrow> Inl (ValueError ''Invalid isoformat string'')
      | Some dt \<Rightarrow> Inr (epoch_millis zone dt))"

section \<open>Objects and the calls that change them\<close>

text \<open>
  For what a call of \<^verbatim>\<open>unify_data\<close> changes, the objects are put in a store. It holds
  three kinds of objects, each kind with its own addresses, which are given out in
  order: values (the records of the input and the canonical records, each a value as
  above, its nested values kept by value), Python lists, whose elements are addresses of
  values, and instances of \<^verbatim>\<open>DataUnifier\<close>, each with the address of the list in its
  field \<^verbatim>\<open>unified_data\<close>. The addresses below \<open>values_end\<close>, \<open>lists_end\<close> and
  \<open>unifiers_end\<close> are the objects that exist.
\<close>

type_synonym addr = nat

record store =
  value_at :: "addr \<Rightarrow> json"
  values_end :: addr
  list_at :: "addr \<Rightarrow> addr list"
  lists_end :: addr
  unifier_at :: "addr \<Rightarrow> addr"
  unifiers_end :: addr

text \<open>A new value, a new empty list, \<^verbatim>\<open>l.append(a)\<close> and the assignment of the sorted list.\<close>

definition new_value :: "store \<Rightarrow> json \<Rightarrow> addr \<times> store" where
  "new_value h v =
     (values_end h,
      h\<lparr>value_at := (value_at h)(values_end h := v), values_end := Suc (values_end h)\<rparr>)"

definition new_list :: "store \<Rightarrow> addr \<times> store" where
  "new_list h =
     (lists_end h,
      h\<lparr>list_at := (list_at h)(lists_end h := []), lists_end := Suc (lists_end h)\<rparr>)"

definition list_append :: "store \<Rightarrow> addr \<Rightarrow> addr \<Rightarrow> store" where
  "list_append h l a = h\<lparr>list_at := (list_at h)(l := list_at h l @ [a])\<rparr>"

definition list_assign :: "store \<Rightarrow> addr \<Rightarrow> addr list \<Rightarrow> store" where
  "list_assign h l as = h\<lparr>list_at := (list_at h)(l := as)\<rparr>"

text \<open>\<^verbatim>\<open>__init__\<close>, lines 11 and 12: the instance and its empty list.\<close>

definition init :: "store \<Rightarrow> addr \<times> store" where
  "init h =
     (let (unified_data, h1) = new_list h in
      (unifiers_end h1,
       h1\<lparr>unifier_at := (unifier_at h1)(unifiers_end h1 := unified_data),
          unifiers_end := Suc (unifiers_end h1)\<rparr>))"

text \<open>
  \<^verbatim>\<open>unify_data\<close> on the store, statement by statement. \<^verbatim>\<open>data_list\<close> is the address of
  a list, as its annotation says, and \<^verbatim>\<open>self\<close> that of an instance. Line 119 makes the
  new list \<^verbatim>\<open>unified_results\<close>; the loop goes through the elements of \<^verbatim>\<open>data_list\<close>,
  and for each one that the body of the \<^verbatim>\<open>try\<close> normalizes it makes the new dict and
  appends its address to \<^verbatim>\<open>unified_results\<close>; for the others the handler prints, and
  its exception, if any, ends the call; line 140 sorts \<^verbatim>\<open>unified_results\<close> in place on
  \<^verbatim>\<open>x["timestamp"]\<close>, which raises on a value that is not a dict. The methods that
  \<^verbatim>\<open>unify_data\<close> calls on \<^verbatim>\<open>self\<close> read no field of it.
\<close>

fun unify_loop_heap :: "host \<Rightarrow> addr list \<Rightarrow> addr \<Rightarrow> store \<Rightarrow> error option \<times> store" where
  "unify_loop_heap lib [] unified_results h = (None, h)"
| "unify_loop_heap lib (a # rest) unified_results h =
     (case process_entry lib (value_at h a) of
        Inr normalized \<Rightarrow>
          (let (n, h') = new_value h (JDict normalized) in
           unify_loop_heap lib rest unified_results (list_append h' unified_results n))
      | Inl e \<Rightarrow>
          (case handler (value_at h a) e of
             Inl e' \<Rightarrow> (Some e', h)
           | Inr u \<Rightarrow> unify_loop_heap lib rest unified_results h))"

definition timestamp_key :: "store \<Rightarrow> addr \<Rightarrow> error + json" where
  "timestamp_key h a =
     (case value_at h a of
        JDict d \<Rightarrow> dict_getitem d ''timestamp''
      | _ \<Rightarrow> Inl TypeError)"

definition unify_data_heap :: "host \<Rightarrow> addr \<Rightarrow> addr \<Rightarrow> store \<Rightarrow> (error + addr) \<times> store" where
  "unify_data_heap lib self data_list h =
     (let (unified_results, h1) = new_list h in
      case unify_loop_heap lib (list_at h data_list) unified_results h1 of
        (Some e, h2) \<Rightarrow> (Inl e, h2)
      | (None, h2) \<Rightarrow>
          (case list_sort (timestamp_key h2) (list_at h2 unified_results) of
             Inl e \<Rightarrow> (Inl e, h2)
           | Inr sorted_results \<Rightarrow>
               (Inr unified_results, list_assign h2 unified_results sorted_results)))"

section \<open>Canonical records\<close>

text \<open>
  A record of canonical shape is a dict with the five keys of the output and an integer
  at key \<^verbatim>\<open>timestamp\<close>; \<open>canonical_timestamp\<close> reads that integer.
\<close>

definition canonical_shaped :: "json \<Rightarrow> bool" where
  "canonical_shaped r =
     (case r of
        JDict d \<Rightarrow>
          set (map fst d) = {''timestamp'', ''message'', ''value'', ''source'', ''metadata''} \<and>
          (case map_of d ''timestamp'' of Some (JInt t) \<Rightarrow> True | _ \<Rightarrow> False)
      | _ \<Rightarrow> False)"

definition canonical_timestamp :: "json \<Rightarrow> int" where
  "canonical_timestamp r =
     (case r of
        JDict d \<Rightarrow> (case map_of d ''timestamp'' of Some (JInt t) \<Rightarrow> t | _ \<Rightarrow> 0)
      | _ \<Rightarrow> 0)"

section \<open>Properties\<close>

subsection \<open>The sort on linearly ordered keys\<close>

lemma sort_keys_total:
  "\<forall>x\<in>set xs. key x = Inr (g x) \<Longrightarrow> sort_keys key xs = Inr (map (\<lambda>x. (g x, x)) xs)"
  by (induction xs) auto

lemma filter_sort_key_eq:
  "filter (\<lambda>x. k = f x) (sort_key f xs) = filter (\<lambda>x. k = f x) xs"
  using sort_key_stable [of f k xs] by (simp add: eq_commute [of k])

lemma sort_key_snoc_least:
  fixes f :: "'a \<Rightarrow> 'k::linorder"
  assumes "sorted (map f ys)" "\<forall>y\<in>set ys. f x < f y"
  shows "sort_key f (ys @ [x]) = x # ys"
proof (rule properties_for_sort_key)
  show "mset (x # ys) = mset (ys @ [x])" by simp
  show "sorted (map f (x # ys))" using assms by (auto simp: less_imp_le)
  fix k assume "k \<in> set (x # ys)"
  have "filter (\<lambda>y. f x = f y) ys = []"
    using assms(2) by (auto simp: filter_empty_conv)
  then show "filter (\<lambda>y. f k = f y) (x # ys) = filter (\<lambda>y. f k = f y) (ys @ [x])"
    by (cases "f k = f x") auto
qed

lemma sort_key_cons_least:
  fixes f :: "'a \<Rightarrow> 'k::linorder"
  assumes "\<forall>z\<in>set zs. f y \<le> f z"
  shows "sort_key f (y # zs) = y # sort_key f zs"
  using assms by (simp add: insort_is_Cons)

lemma sort_key_sort_key_append:
  fixes f :: "'a \<Rightarrow> 'k::linorder"
  shows "sort_key f (sort_key f as @ bs) = sort_key f (as @ bs)"
proof (rule properties_for_sort_key)
  show "mset (sort_key f (as @ bs)) = mset (sort_key f as @ bs)" by simp
  show "sorted (map f (sort_key f (as @ bs)))" by simp
  fix k
  show "filter (\<lambda>x. f k = f x) (sort_key f (as @ bs)) = filter (\<lambda>x. f k = f x) (sort_key f as @ bs)"
    by (simp add: filter_sort_key_eq)
qed

text \<open>
  When \<^verbatim>\<open><\<close> raises nothing on the keys and is the order of a linear order there, the
  insertion puts the pivot where \<open>sort_key\<close> puts it.
\<close>

lemma sort_insert_linorder:
  fixes f :: "'a \<Rightarrow> 'k::linorder"
  assumes "sorted (map f ys)"
    and "\<forall>y\<in>set ys. py_lt (j x) (j y) = Inr (f x < f y)"
  shows "sort_insert (j x, x) (map (\<lambda>y. (j y, y)) ys) =
     Inr (map (\<lambda>y. (j y, y)) (sort_key f (ys @ [x])))"
  using assms
proof (induction ys)
  case Nil
  then show ?case by simp
next
  case (Cons y ys)
  have lt: "py_lt (j x) (j y) = Inr (f x < f y)" using Cons.prems(2) by simp
  show ?case
  proof (cases "f x < f y")
    case True
    with Cons.prems(1) have "\<forall>z\<in>set (y # ys). f x < f z" by auto
    with Cons.prems(1) have "sort_key f ((y # ys) @ [x]) = x # y # ys"
      by (rule sort_key_snoc_least)
    with True lt show ?thesis by simp
  next
    case False
    from Cons.prems(1) have "\<forall>z\<in>set (ys @ [x]). f y \<le> f z" using False by auto
    then have "sort_key f (y # (ys @ [x])) = y # sort_key f (ys @ [x])"
      by (rule sort_key_cons_least)
    moreover from Cons have "sort_insert (j x, x) (map (\<lambda>y. (j y, y)) ys) =
       Inr (map (\<lambda>y. (j y, y)) (sort_key f (ys @ [x])))" by simp
    ultimately show ?thesis using False lt by simp
  qed
qed

lemma sort_run_linorder:
  fixes f :: "'a \<Rightarrow> 'k::linorder"
  assumes "sorted (map f ys)"
    and "\<forall>x\<in>set (ys @ ps). \<forall>y\<in>set (ys @ ps). py_lt (j x) (j y) = Inr (f x < f y)"
  shows "sort_run (map (\<lambda>y. (j y, y)) ps) (map (\<lambda>y. (j y, y)) ys) =
     Inr (map (\<lambda>y. (j y, y)) (sort_key f (ys @ ps)))"
  using assms
proof (induction ps arbitrary: ys)
  case Nil
  then show ?case by (simp add: sort_key_id_if_sorted)
next
  case (Cons p ps)
  have ins: "sort_insert (j p, p) (map (\<lambda>y. (j y, y)) ys) =
      Inr (map (\<lambda>y. (j y, y)) (sort_key f (ys @ [p])))"
    using Cons.prems by (intro sort_insert_linorder) auto
  have "sorted (map f (sort_key f (ys @ [p])))" by simp
  moreover have "\<forall>x\<in>set (sort_key f (ys @ [p]) @ ps). \<forall>y\<in>set (sort_key f (ys @ [p]) @ ps).
      py_lt (j x) (j y) = Inr (f x < f y)"
    using Cons.prems(2) by auto
  ultimately have "sort_run (map (\<lambda>y. (j y, y)) ps)
       (map (\<lambda>y. (j y, y)) (sort_key f (ys @ [p]))) =
     Inr (map (\<lambda>y. (j y, y)) (sort_key f (sort_key f (ys @ [p]) @ ps)))"
    by (rule Cons.IH)
  then show ?case
    using ins by (simp add: sort_key_sort_key_append)
qed

lemma list_sort_linorder:
  fixes f :: "'a \<Rightarrow> 'k::linorder"
  assumes "\<forall>x\<in>set xs. key x = Inr (j x)"
    and "\<forall>x\<in>set xs. \<forall>y\<in>set xs. py_lt (j x) (j y) = Inr (f x < f y)"
  shows "list_sort key xs = Inr (sort_key f xs)"
proof -
  have "sort_keys key xs = Inr (map (\<lambda>x. (j x, x)) xs)"
    using assms(1) by (rule sort_keys_total)
  moreover have "sort_run (map (\<lambda>y. (j y, y)) xs) (map (\<lambda>y. (j y, y)) []) =
     Inr (map (\<lambda>y. (j y, y)) (sort_key f ([] @ xs)))"
    using assms(2) by (intro sort_run_linorder) simp_all
  ultimately show ?thesis
    by (simp add: list_sort_def comp_def)
qed


subsection \<open>The loop\<close>

lemma successfully_normalized_set:
  "n \<in> set (successfully_normalized lib xs) \<longleftrightarrow> (\<exists>e\<in>set xs. process_entry lib e = Inr n)"
  by (induction xs) (auto simp: successfully_normalized_def split: sum.splits)

lemma successfully_normalized_append:
  "successfully_normalized lib (xs @ ys) =
     successfully_normalized lib xs @ successfully_normalized lib ys"
  by (simp add: successfully_normalized_def)

lemma successfully_normalized_all:
  "\<forall>r\<in>set xs. \<exists>n. process_entry lib r = Inr n \<Longrightarrow>
     length (successfully_normalized lib xs) = length xs"
  by (induction xs) (auto simp: successfully_normalized_def)

text \<open>
  A record on which the body of the \<^verbatim>\<open>try\<close> raises is left out and the loop goes on,
  as long as the handler can print it.
\<close>

lemma unify_loop_printable:
  assumes "\<forall>e\<in>set data_list. \<forall>err. process_entry lib e = Inl err \<longrightarrow> \<not> str_raises e"
  shows "unify_loop lib data_list unified_results =
           Inr (unified_results @ successfully_normalized lib data_list)"
  using assms
proof (induction data_list arbitrary: unified_results)
  case Nil
  then show ?case by (simp add: successfully_normalized_def)
next
  case (Cons e data_list)
  then have IH: "unify_loop lib data_list acc = Inr (acc @ successfully_normalized lib data_list)"
    for acc by simp
  show ?case
  proof (cases "process_entry lib e")
    case (Inl err)
    with Cons.prems have "\<not> str_raises e" by simp
    with Inl IH show ?thesis
      by (simp add: handler_def py_print_def successfully_normalized_def)
  next
    case (Inr n)
    with IH show ?thesis by (simp add: successfully_normalized_def)
  qed
qed

text \<open>
  The handler is not covered by a handler: an entry that is not a dict and holds an
  integer of more than 4300 digits makes \<open>unify_data\<close> raise \<^verbatim>\<open>ValueError\<close>.
\<close>

lemma unify_data_handler_raises:
  assumes "10 ^ 4300 \<le> \<bar>i\<bar>"
  shows "unify_data lib (JInt i # rest) =
    Inl (ValueError (''Exceeds the limit (4300 digits) for integer string conversion; '' @
                     ''use sys.set_int_max_str_digits() to increase the limit''))"
proof -
  have "process_entry lib (JInt i) = Inl AttributeError"
    by (simp add: process_entry_def detect_data_format_def)
  moreover have "str_raises (JInt i)" using assms by (simp only: str_raises.simps int_str_raises_def)
  ultimately show ?thesis
    by (simp add: unify_data_def handler_def py_print_def)
qed


lemma process_entry_timestamp:
  "process_entry lib e = Inr n \<Longrightarrow> dict_getitem n ''timestamp'' = Inr (timestamp n)"
  by (cases e)
     (auto simp: process_entry_def detect_data_format_def normalize_data_format_1_def
        normalize_data_format_2_def dict_getitem_def timestamp_def dict_get_def Let_def
        split: if_splits sum.splits)

text \<open>
  When the handler can print every record it is given, and \<^verbatim>\<open><\<close> on the timestamps
  of the records that the loop keeps raises nothing and is the order of a linear order,
  \<open>unify_data\<close> returns the kept records in the order of \<open>sort_key\<close>; with at most one
  kept record the sort compares nothing.
\<close>

lemma unify_data_sort_key:
  fixes f :: "dict \<Rightarrow> 'k::linorder"
  assumes "\<forall>e\<in>set data_list. \<forall>err. process_entry lib e = Inl err \<longrightarrow> \<not> str_raises e"
    and "\<forall>a\<in>set (successfully_normalized lib data_list).
         \<forall>b\<in>set (successfully_normalized lib data_list).
           py_lt (timestamp a) (timestamp b) = Inr (f a < f b)"
  shows "unify_data lib data_list = Inr (sort_key f (successfully_normalized lib data_list))"
proof -
  have "\<forall>n\<in>set (successfully_normalized lib data_list).
      dict_getitem n ''timestamp'' = Inr (timestamp n)"
    by (auto simp: successfully_normalized_set dest: process_entry_timestamp)
  then have "list_sort (\<lambda>x. dict_getitem x ''timestamp'') (successfully_normalized lib data_list) =
      Inr (sort_key f (successfully_normalized lib data_list))"
    using assms(2) by (rule list_sort_linorder)
  then show ?thesis
    using unify_loop_printable [OF assms(1), of "[]"] by (simp add: unify_data_def)
qed


subsection \<open>The classifier\<close>

lemma str_in_single: "str_in [c] s = (c \<in> set s)"
  by (induction s) auto

lemma dict_get_timestamp_field:
  "dict_get d ''timestamp'' (dict_get d ''time'' (JStr [])) = timestamp_field d"
  by (simp add: dict_get_def timestamp_field_def split: option.splits)

lemma detect_data_format_dict:
  "detect_data_format (JDict d) =
     Inr (case dict_get d ''timestamp'' (dict_get d ''time'' (JStr [])) of
            JStr s \<Rightarrow> if str_in ''T'' s \<or> str_in ''Z'' s then ''format_2'' else ''format_1''
          | _ \<Rightarrow> ''format_1'')"
  by (cases "dict_get d ''timestamp'' (dict_get d ''time'' (JStr []))")
     (simp_all add: detect_data_format_def)

text \<open>
  C4: on every dict, the empty one included, \<open>detect_data_format\<close> returns a tag and
  raises nothing; the tag is the one the specification describes: it is decided by the
  value at key \<^verbatim>\<open>timestamp\<close>, else at key \<^verbatim>\<open>time\<close>, else by the empty string, and it
  is \<^verbatim>\<open>format_2\<close> for a string with a \<^verbatim>\<open>T\<close> or a \<^verbatim>\<open>Z\<close> in it and \<^verbatim>\<open>format_1\<close> for
  a number and in every other case.
\<close>

theorem detect_data_format_classify:
  "detect_data_format (JDict d) = Inr (tag (classify_spec d))"
proof -
  have "detect_data_format (JDict d) =
        Inr (tag (classify_spec_value
          (dict_get d ''timestamp'' (dict_get d ''time'' (JStr [])))))"
    by (cases "dict_get d ''timestamp'' (dict_get d ''time'' (JStr []))")
       (simp_all add: detect_data_format_def str_in_single)
  then show ?thesis
    by (simp add: classify_spec_def dict_get_timestamp_field)
qed

subsection \<open>One record\<close>

lemma process_entry_not_dict:
  "\<forall>d. e \<noteq> JDict d \<Longrightarrow> process_entry lib e = Inl AttributeError"
  by (cases e) (auto simp: process_entry_def detect_data_format_def)

lemma normalize_data_format_2_timestamp:
  "normalize_data_format_2 lib e = Inr n \<Longrightarrow> \<exists>t. map_of n ''timestamp'' = Some (JInt t)"
  by (auto simp: normalize_data_format_2_def Let_def split: json.splits sum.splits)

lemma normalize_data_format_1_timestamp:
  "normalize_data_format_1 (JDict d) = Inr n \<Longrightarrow>
     map_of n ''timestamp'' = Some (dict_get d ''timestamp'' JNull)"
  by (auto simp: normalize_data_format_1_def)

lemma normalize_data_format_1_projr:
  "normalize_data_format_1 (JDict d) = Inr (projr (normalize_data_format_1 (JDict d)))"
  by (simp add: normalize_data_format_1_def)

lemma dict_get_present: "map_of d k = Some v \<Longrightarrow> dict_get d k dflt = v"
  by (simp add: dict_get_def)

text \<open>
  A text with a \<^verbatim>\<open>T\<close> or a \<^verbatim>\<open>Z\<close> that the library rejects with a \<^verbatim>\<open>ValueError\<close>
  makes the body of the \<^verbatim>\<open>try\<close> raise a \<^verbatim>\<open>ValueError\<close> that names the text parsed.
\<close>

lemma process_entry_rejected_text:
  assumes "dict_get d ''timestamp'' (dict_get d ''time'' (JStr [])) = JStr s"
    and "str_in ''T'' s \<or> str_in ''Z'' s"
    and "lib (if endswith s ''Z'' then butlast s else s) = Inl (ValueError m)"
  shows "process_entry lib (JDict d) =
           Inl (ValueError (''Invalid ISO timestamp format: '' @
             (if endswith s ''Z'' then butlast s else s)))"
  using assms
  by (auto simp: process_entry_def detect_data_format_dict normalize_data_format_2_def
      iso_to_milliseconds_def Let_def)

text \<open>
  C3, as the claim states it: \<open>iso_to_milliseconds\<close>, the only function of the source
  that converts a timestamp, does not return a numeric argument unchanged. Its parameter
  is a string; on the integer 1000 it raises \<^verbatim>\<open>AttributeError\<close>.
\<close>

theorem iso_to_milliseconds_numeric_raises:
  "iso_to_milliseconds utc_host (JInt 1000) = Inl AttributeError"
  by (simp add: iso_to_milliseconds_def)

text \<open>
  C3, amended: a number \<open>t\<close> (integer, float or boolean) at key \<^verbatim>\<open>timestamp\<close> of a
  record never reaches \<open>iso_to_milliseconds\<close>: the record is classified \<^verbatim>\<open>format_1\<close>
  and \<open>unify_data\<close> returns its canonical record with \<open>t\<close> itself as the timestamp, not
  scaled, and raises nothing.
\<close>

theorem numeric_timestamp_passes_unchanged:
  assumes "isinstance_int_float t" and "map_of d ''timestamp'' = Some t"
  shows "detect_data_format (JDict d) = Inr ''format_1'' \<and>
         unify_data lib [JDict d] =
           Inr [[(''timestamp'', t),
                 (''message'', dict_get d ''message'' (JStr [])),
                 (''value'', dict_get d ''value'' (JInt 0)),
                 (''source'', JStr ''format_1''),
                 (''metadata'', dict_get d ''metadata'' (JDict []))]]"
  using assms
  by (cases t)
     (simp_all add: unify_data_def process_entry_def detect_data_format_dict
        normalize_data_format_1_def dict_get_def list_sort_def dict_getitem_def)

theorem numeric_timestamp_passes_unchanged_witness:
  "detect_data_format (JDict [(''timestamp'', JFloat (3 / 2)), (''message'', JStr ''a'')]) =
     Inr ''format_1'' \<and>
   unify_data utc_host [JDict [(''timestamp'', JFloat (3 / 2)), (''message'', JStr ''a'')]] =
     Inr [[(''timestamp'', JFloat (3 / 2)), (''message'', JStr ''a''), (''value'', JInt 0),
           (''source'', JStr ''format_1''), (''metadata'', JDict [])]]"
  using numeric_timestamp_passes_unchanged
    [of "JFloat (3 / 2)" "[(''timestamp'', JFloat (3 / 2)), (''message'', JStr ''a'')]" utc_host]
  by (simp add: dict_get_def)

lemma map_of_without_time:
  "k \<noteq> ''time'' \<Longrightarrow> map_of (filter (\<lambda>p. fst p \<noteq> ''time'') d) k = map_of d k"
  by (induction d) auto

lemma map_of_time_removed:
  "map_of (filter (\<lambda>p. fst p \<noteq> ''time'') d) ''time'' = None"
  by (induction d) auto

text \<open>
  C9: a record with no key \<^verbatim>\<open>timestamp\<close> and a number at key \<^verbatim>\<open>time\<close> is classified
  \<^verbatim>\<open>format_1\<close> (the classifier falls back on \<^verbatim>\<open>time\<close>), but
  \<open>normalize_data_format_1\<close> reads key \<^verbatim>\<open>timestamp\<close> only: the timestamp of the
  canonical record is \<^verbatim>\<open>None\<close>, and the record is the one that the same input without
  its key \<^verbatim>\<open>time\<close> gives, so the number is lost.
\<close>

theorem numeric_time_fallback_discarded:
  assumes "map_of d ''timestamp'' = None" and "map_of d ''time'' = Some v"
    and "isinstance_int_float v"
  shows "detect_data_format (JDict d) = Inr ''format_1'' \<and>
         (\<exists>n. process_entry lib (JDict d) = Inr n \<and>
              map_of n ''timestamp'' = Some JNull \<and>
              process_entry lib (JDict (filter (\<lambda>p. fst p \<noteq> ''time'') d)) = Inr n)"
  using assms
  by (cases v)
     (simp_all add: process_entry_def detect_data_format_dict normalize_data_format_1_def
        dict_get_def map_of_without_time map_of_time_removed)

theorem numeric_time_fallback_discarded_witness:
  "detect_data_format (JDict [(''time'', JInt 1700000000000), (''message'', JStr ''a'')]) =
     Inr ''format_1'' \<and>
   (\<exists>n. process_entry utc_host (JDict [(''time'', JInt 1700000000000), (''message'', JStr ''a'')]) =
          Inr n \<and>
        map_of n ''timestamp'' = Some JNull \<and>
        process_entry utc_host (JDict [(''message'', JStr ''a'')]) = Inr n)"
  using numeric_time_fallback_discarded
    [of "[(''time'', JInt 1700000000000), (''message'', JStr ''a'')]" "JInt 1700000000000" utc_host]
  by simp

text \<open>
  C10: a record whose value at key \<^verbatim>\<open>timestamp\<close> is a boolean is classified
  \<^verbatim>\<open>format_1\<close>, since \<^verbatim>\<open>isinstance(True, int)\<close> holds, and the boolean itself is the
  timestamp of the canonical record.
\<close>

theorem boolean_timestamp_passes_verbatim:
  assumes "map_of d ''timestamp'' = Some (JBool b)"
  shows "isinstance_int_float (JBool b) \<and>
         detect_data_format (JDict d) = Inr ''format_1'' \<and>
         (\<exists>n. process_entry lib (JDict d) = Inr n \<and> map_of n ''timestamp'' = Some (JBool b))"
  using assms
  by (simp add: process_entry_def detect_data_format_dict normalize_data_format_1_def
        dict_get_def)

theorem boolean_timestamp_passes_verbatim_witness:
  "isinstance_int_float (JBool True) \<and>
   detect_data_format (JDict [(''timestamp'', JBool True), (''value'', JInt 7)]) =
     Inr ''format_1'' \<and>
   (\<exists>n. process_entry utc_host (JDict [(''timestamp'', JBool True), (''value'', JInt 7)]) = Inr n \<and>
        map_of n ''timestamp'' = Some (JBool True))"
  using boolean_timestamp_passes_verbatim
    [of "[(''timestamp'', JBool True), (''value'', JInt 7)]" True utc_host]
  by simp

subsection \<open>The whole list\<close>

text \<open>
  What holds of the handler: when one record raises and every other one is normalized,
  the loop keeps one record less than it was given.
\<close>

lemma successfully_normalized_skips_one:
  assumes "process_entry lib bad = Inl e"
    and "\<forall>r\<in>set (before @ after). \<exists>n. process_entry lib r = Inr n"
  shows "length (successfully_normalized lib (before @ bad # after)) =
           length (before @ bad # after) - 1"
proof -
  have "successfully_normalized lib (bad # after) = successfully_normalized lib after"
    using assms(1) by (simp add: successfully_normalized_def)
  then have "successfully_normalized lib (before @ bad # after) =
      successfully_normalized lib (before @ after)"
    by (simp add: successfully_normalized_append)
  then show ?thesis
    using successfully_normalized_all [OF assms(2)] by simp
qed

text \<open>
  C1, at an input on which the claim fails: the first record has the text
  \<^verbatim>\<open>not-a-date\<close> as its timestamp, without \<^verbatim>\<open>T\<close> or \<^verbatim>\<open>Z\<close>, and is passed through by
  the loop; the second has the timestamp 500. The sort after the loop, which no handler
  covers, compares the integer with the string, and \<open>unify_data\<close> raises
  \<^verbatim>\<open>TypeError\<close>.
\<close>

theorem unify_data_raises_on_mixed_timestamps:
  "unify_data utc_host
     [JDict [(''timestamp'', JStr ''not-a-date'')], JDict [(''timestamp'', JInt 500)]] =
   Inl TypeError"
  by (simp add: unify_data_def process_entry_def detect_data_format_def
      normalize_data_format_1_def dict_get_def list_sort_def dict_getitem_def)

text \<open>
  C5, at an input on which the claim fails: the first record has a text with a \<^verbatim>\<open>T\<close>
  that the library rejects and is skipped; the two others are empty dicts, which are
  normalized to records with the timestamp \<^verbatim>\<open>None\<close>. The sort compares \<^verbatim>\<open>None\<close> with
  \<^verbatim>\<open>None\<close> and \<open>unify_data\<close> raises \<^verbatim>\<open>TypeError\<close> instead of returning two records.
\<close>

theorem unify_data_raises_after_skip:
  "process_entry utc_host (JDict [(''timestamp'', JStr ''2023-10-15Tbad'')]) =
     Inl (ValueError ''Invalid ISO timestamp format: 2023-10-15Tbad'') \<and>
   process_entry utc_host (JDict []) =
     Inr [(''timestamp'', JNull), (''message'', JStr []), (''value'', JInt 0),
          (''source'', JStr ''format_1''), (''metadata'', JDict [])] \<and>
   unify_data utc_host
     [JDict [(''timestamp'', JStr ''2023-10-15Tbad'')], JDict [], JDict []] =
   Inl TypeError"
  by (simp add: unify_data_def process_entry_def detect_data_format_def
      normalize_data_format_1_def normalize_data_format_2_def iso_to_milliseconds_def
      endswith_def utc_host_def dict_get_def list_sort_def dict_getitem_def
      handler_def py_print_def)



lemma str_lt_less: "str_lt s t \<longleftrightarrow> s < t"
  by (induction s t rule: str_lt.induct) (auto simp: less_char_def)

lemma py_lt_strings: "py_lt (JStr s) (JStr t) = Inr (s < t)"
  by (simp add: str_lt_less)





text \<open>
  With one record that raises and can be printed, among records that are all
  normalized to timestamps that \<^verbatim>\<open><\<close> orders linearly, the output has one record less
  than the input.
\<close>

lemma unify_data_skips_one:
  fixes f :: "dict \<Rightarrow> 'k::linorder"
  assumes "process_entry lib bad = Inl e" and "\<not> str_raises bad"
    and "\<forall>r\<in>set (before @ after). \<exists>n. process_entry lib r = Inr n"
    and "\<forall>a\<in>set (successfully_normalized lib (before @ bad # after)).
         \<forall>b\<in>set (successfully_normalized lib (before @ bad # after)).
           py_lt (timestamp a) (timestamp b) = Inr (f a < f b)"
  shows "\<exists>out. unify_data lib (before @ bad # after) = Inr out \<and>
           length out = length (before @ bad # after) - 1"
proof -
  have "\<forall>x\<in>set (before @ bad # after). \<forall>err. process_entry lib x = Inl err \<longrightarrow> \<not> str_raises x"
  proof (intro ballI allI impI)
    fix x err
    assume x: "x \<in> set (before @ bad # after)" and err: "process_entry lib x = Inl err"
    show "\<not> str_raises x"
    proof (cases "x = bad")
      case True
      with assms(2) show ?thesis by simp
    next
      case False
      with x have "x \<in> set (before @ after)" by auto
      with assms(3) obtain n where "process_entry lib x = Inr n" by blast
      with err show ?thesis by simp
    qed
  qed
  then have "unify_data lib (before @ bad # after) =
      Inr (sort_key f (successfully_normalized lib (before @ bad # after)))"
    using assms(4) by (rule unify_data_sort_key)
  with successfully_normalized_skips_one [OF assms(1,3)] show ?thesis by simp
qed

subsection \<open>Canonical input\<close>

lemma canonical_shaped_dict:
  "canonical_shaped r \<Longrightarrow> \<exists>d. r = JDict d"
  by (cases r) (simp_all add: canonical_shaped_def)

lemma canonical_shaped_timestamp:
  "canonical_shaped (JDict d) \<Longrightarrow>
     map_of d ''timestamp'' = Some (JInt (canonical_timestamp (JDict d)))"
  by (auto simp: canonical_shaped_def canonical_timestamp_def split: option.splits json.splits)

lemma canonical_shaped_process_entry:
  assumes "canonical_shaped (JDict d)"
  shows "process_entry lib (JDict d) = normalize_data_format_1 (JDict d)"
  using canonical_shaped_timestamp [OF assms]
  by (simp add: process_entry_def detect_data_format_dict dict_get_def)

lemma canonical_shaped_normalized:
  assumes "canonical_shaped (JDict d)" and "normalize_data_format_1 (JDict d) = Inr n"
  shows "canonical_shaped (JDict n)"
    and "canonical_timestamp (JDict n) = canonical_timestamp (JDict d)"
    and "normalize_data_format_1 (JDict n) = Inr n"
    and "map_of n = (map_of d)(''source'' \<mapsto> JStr ''format_1'')"
proof -
  have n: "n = [(''timestamp'', dict_get d ''timestamp'' JNull),
               (''message'', dict_get d ''message'' (JStr [])),
               (''value'', dict_get d ''value'' (JInt 0)),
               (''source'', JStr ''format_1''),
               (''metadata'', dict_get d ''metadata'' (JDict []))]"
    using assms(2) by (simp add: normalize_data_format_1_def)
  have ts: "dict_get d ''timestamp'' JNull = JInt (canonical_timestamp (JDict d))"
    using canonical_shaped_timestamp [OF assms(1)] by (simp add: dict_get_def)
  show "canonical_shaped (JDict n)"
    by (auto simp: n ts canonical_shaped_def)
  show "canonical_timestamp (JDict n) = canonical_timestamp (JDict d)"
    by (simp add: n ts canonical_timestamp_def)
  show "normalize_data_format_1 (JDict n) = Inr n"
    by (simp add: n normalize_data_format_1_def dict_get_def)
  have keys: "fst ` set d = {''timestamp'', ''message'', ''value'', ''source'', ''metadata''}"
    using assms(1) by (simp add: canonical_shaped_def)
  have present: "\<exists>v. map_of d k = Some v" if "k \<in> fst ` set d" for k
    using that by (cases "map_of d k") (simp_all add: map_of_eq_None_iff)
  obtain m where m: "map_of d ''message'' = Some m"
    using present [of "''message''"] keys by auto
  obtain v where v: "map_of d ''value'' = Some v"
    using present [of "''value''"] keys by auto
  obtain md where md: "map_of d ''metadata'' = Some md"
    using present [of "''metadata''"] keys by auto
  have n': "n = [(''timestamp'', JInt (canonical_timestamp (JDict d))), (''message'', m),
                (''value'', v), (''source'', JStr ''format_1''), (''metadata'', md)]"
    by (simp only: n ts dict_get_present [OF m] dict_get_present [OF v] dict_get_present [OF md])
  show "map_of n = (map_of d)(''source'' \<mapsto> JStr ''format_1'')"
  proof
    fix k
    consider "k = ''timestamp''" | "k = ''message''" | "k = ''value''" | "k = ''source''"
      | "k = ''metadata''" | "k \<notin> fst ` set d"
      using keys by blast
    then show "map_of n k = ((map_of d)(''source'' \<mapsto> JStr ''format_1'')) k"
    proof cases
      case 1
      then show ?thesis using canonical_shaped_timestamp [OF assms(1)] by (simp add: n')
    next
      case 2
      then show ?thesis using m by (simp add: n')
    next
      case 3
      then show ?thesis using v by (simp add: n')
    next
      case 4
      then show ?thesis by (simp add: n')
    next
      case 5
      then show ?thesis using md by (simp add: n')
    next
      case 6
      then have "map_of d k = None" by (simp add: map_of_eq_None_iff)
      moreover from 6 keys have "k \<noteq> ''timestamp''" "k \<noteq> ''message''" "k \<noteq> ''value''"
        "k \<noteq> ''source''" "k \<noteq> ''metadata''" by auto
      ultimately show ?thesis by (simp add: n')
    qed
  qed
qed

lemma unify_data_canonical:
  assumes "\<forall>d\<in>set ds. canonical_shaped (JDict d)"
    and "sorted (map (\<lambda>d. canonical_timestamp (JDict d)) ds)"
  shows "unify_data lib (map JDict ds) =
           Inr (map (\<lambda>d. projr (normalize_data_format_1 (JDict d))) ds)"
proof -
  let ?N = "\<lambda>d. projr (normalize_data_format_1 (JDict d))"
  let ?f = "\<lambda>n. canonical_timestamp (JDict n)"
  have N: "normalize_data_format_1 (JDict d) = Inr (?N d)" for d
    by (rule normalize_data_format_1_projr)
  have succ: "successfully_normalized lib (map JDict ds) = map ?N ds"
    using assms(1)
  proof (induction ds)
    case Nil
    then show ?case by (simp add: successfully_normalized_def)
  next
    case (Cons d ds)
    then have "process_entry lib (JDict d) = Inr (?N d)"
      using N [of d] by (simp add: canonical_shaped_process_entry)
    with Cons show ?case by (simp add: successfully_normalized_def)
  qed
  have ts: "timestamp n = JInt (?f n)" if "n \<in> set (map ?N ds)" for n
  proof -
    from that obtain d where d: "d \<in> set ds" "n = ?N d" by auto
    with assms(1) have "canonical_shaped (JDict d)" by simp
    from canonical_shaped_normalized(1) [OF this N] have "canonical_shaped (JDict n)"
      by (simp add: d)
    from canonical_shaped_timestamp [OF this]
    show ?thesis by (simp add: timestamp_def dict_get_def)
  qed
  have lin: "\<forall>a\<in>set (successfully_normalized lib (map JDict ds)).
      \<forall>b\<in>set (successfully_normalized lib (map JDict ds)).
        py_lt (timestamp a) (timestamp b) = Inr (?f a < ?f b)"
    unfolding succ using ts by simp
  have printable: "\<forall>e\<in>set (map JDict ds). \<forall>err. process_entry lib e = Inl err \<longrightarrow> \<not> str_raises e"
  proof (intro ballI allI impI)
    fix e err
    assume "e \<in> set (map JDict ds)" and err: "process_entry lib e = Inl err"
    then obtain d where d: "d \<in> set ds" "e = JDict d" by auto
    with assms(1) have "process_entry lib e = Inr (?N d)"
      using N [of d] by (simp add: canonical_shaped_process_entry)
    with err show "\<not> str_raises e" by simp
  qed
  have "map ?f (map ?N ds) = map (\<lambda>d. canonical_timestamp (JDict d)) ds"
    unfolding map_map comp_def
    by (rule map_cong [OF refl]) (use assms(1) canonical_shaped_normalized(2) [OF _ N] in blast)
  with assms(2) have "sorted (map ?f (map ?N ds))" by (simp only:)
  then have "sort_key ?f (map ?N ds) = map ?N ds"
    by (rule sort_key_id_if_sorted)
  with unify_data_sort_key [OF printable lin] succ show ?thesis
    by (simp only:)
qed

text \<open>
  C6: on a list of records of canonical shape whose timestamps are in increasing order
  and distinct, \<open>unify_data\<close> returns the records in the same order, each with the same
  items but for \<^verbatim>\<open>source\<close>, which is \<^verbatim>\<open>format_1\<close>; \<open>unify_data\<close> on that output
  returns it unchanged.
\<close>

theorem unify_data_idempotent_on_canonical:
  assumes "\<forall>r\<in>set data_list. canonical_shaped r"
    and "sorted (map canonical_timestamp data_list)"
    and "distinct (map canonical_timestamp data_list)"
  shows "\<exists>out. unify_data lib data_list = Inr out \<and>
           list_all2 (\<lambda>r n. \<exists>d. r = JDict d \<and>
             map_of n = (map_of d)(''source'' \<mapsto> JStr ''format_1'')) data_list out \<and>
           unify_data lib (map JDict out) = Inr out"
proof -
  let ?N = "\<lambda>d. projr (normalize_data_format_1 (JDict d))"
  have N: "normalize_data_format_1 (JDict d) = Inr (?N d)" for d
    by (rule normalize_data_format_1_projr)
  from assms(1) have "\<forall>r\<in>set data_list. \<exists>d. r = JDict d"
    by (blast dest: canonical_shaped_dict)
  then obtain ds where ds: "data_list = map JDict ds"
    by (metis ex_map_conv)
  have c: "\<forall>d\<in>set ds. canonical_shaped (JDict d)"
    using assms(1) by (simp add: ds)
  have s: "sorted (map (\<lambda>d. canonical_timestamp (JDict d)) ds)"
    using assms(2) by (simp add: ds comp_def)
  have out: "unify_data lib data_list = Inr (map ?N ds)"
    unfolding ds by (rule unify_data_canonical [OF c s])
  have same: "list_all2 (\<lambda>r n. \<exists>d. r = JDict d \<and>
             map_of n = (map_of d)(''source'' \<mapsto> JStr ''format_1'')) data_list (map ?N ds)"
    unfolding ds list_all2_map1 list_all2_map2
    by (rule list_all2_same [THEN iffD2])
       (use c canonical_shaped_normalized(4) [OF _ N] in auto)
  have c': "\<forall>n\<in>set (map ?N ds). canonical_shaped (JDict n)"
    using c canonical_shaped_normalized(1) [OF _ N] by auto
  have "map (\<lambda>n. canonical_timestamp (JDict n)) (map ?N ds) =
        map (\<lambda>d. canonical_timestamp (JDict d)) ds"
    unfolding map_map comp_def
    by (rule map_cong [OF refl]) (use c canonical_shaped_normalized(2) [OF _ N] in blast)
  with s have s': "sorted (map (\<lambda>n. canonical_timestamp (JDict n)) (map ?N ds))"
    by (simp only:)
  have "map ?N (map ?N ds) = map ?N ds"
    unfolding map_map comp_def
    by (rule map_cong [OF refl])
       (use c canonical_shaped_normalized(3) [OF _ N] in \<open>simp add: \<close>)
  with unify_data_canonical [OF c' s', of lib]
  have again: "unify_data lib (map JDict (map ?N ds)) = Inr (map ?N ds)"
    by (simp only:)
  from out same again show ?thesis by blast
qed

theorem unify_data_idempotent_on_canonical_witness:
  "\<exists>out. unify_data utc_host
       [JDict [(''message'', JStr ''a''), (''timestamp'', JInt 500), (''value'', JInt 1),
               (''source'', JStr ''format_2''), (''metadata'', JDict [])],
        JDict [(''timestamp'', JInt 700), (''message'', JStr ''b''), (''value'', JFloat (5 / 2)),
               (''source'', JStr ''format_1''), (''metadata'', JDict [(''k'', JNull)])]] = Inr out \<and>
     list_all2 (\<lambda>r n. \<exists>d. r = JDict d \<and>
             map_of n = (map_of d)(''source'' \<mapsto> JStr ''format_1''))
       [JDict [(''message'', JStr ''a''), (''timestamp'', JInt 500), (''value'', JInt 1),
               (''source'', JStr ''format_2''), (''metadata'', JDict [])],
        JDict [(''timestamp'', JInt 700), (''message'', JStr ''b''), (''value'', JFloat (5 / 2)),
               (''source'', JStr ''format_1''), (''metadata'', JDict [(''k'', JNull)])]] out \<and>
     unify_data utc_host (map JDict out) = Inr out"
  by (rule unify_data_idempotent_on_canonical)
     (auto simp: canonical_shaped_def canonical_timestamp_def)

subsection \<open>The sort and a change of elements\<close>

text \<open>The sort looks at the keys only: it commutes with a function on the elements.\<close>

lemma sort_insert_map:
  "sort_insert (k, g x) (map (\<lambda>(k, y). (k, g y)) qs) =
     (case sort_insert (k, x) qs of
        Inl e \<Rightarrow> Inl e
      | Inr r \<Rightarrow> Inr (map (\<lambda>(k, y). (k, g y)) r))"
proof (induction qs)
  case Nil
  then show ?case by simp
next
  case (Cons q qs)
  obtain k' y where q: "q = (k', y)" by (cases q)
  show ?case
  proof (cases "py_lt k k'")
    case (Inl e)
    then show ?thesis by (simp add: q)
  next
    case (Inr b)
    then show ?thesis
      using Cons.IH by (cases b; cases "sort_insert (k, x) qs") (simp_all add: q)
  qed
qed

lemma sort_run_map:
  "sort_run (map (\<lambda>(k, y). (k, g y)) ps) (map (\<lambda>(k, y). (k, g y)) qs) =
     (case sort_run ps qs of
        Inl e \<Rightarrow> Inl e
      | Inr r \<Rightarrow> Inr (map (\<lambda>(k, y). (k, g y)) r))"
proof (induction ps arbitrary: qs)
  case Nil
  then show ?case by simp
next
  case (Cons p ps)
  obtain k x where p: "p = (k, x)" by (cases p)
  show ?case
  proof (cases "sort_insert (k, x) qs")
    case (Inl e)
    then show ?thesis by (simp add: p sort_insert_map)
  next
    case (Inr r)
    then show ?thesis using Cons.IH [of r] by (simp add: p sort_insert_map)
  qed
qed

lemma sort_keys_map:
  "\<forall>x\<in>set xs. key' x = key (g x) \<Longrightarrow>
   sort_keys key (map g xs) =
     (case sort_keys key' xs of
        Inl e \<Rightarrow> Inl e
      | Inr ks \<Rightarrow> Inr (map (\<lambda>(k, y). (k, g y)) ks))"
proof (induction xs)
  case Nil
  then show ?case by simp
next
  case (Cons x xs)
  then have IH: "sort_keys key (map g xs) =
     (case sort_keys key' xs of
        Inl e \<Rightarrow> Inl e
      | Inr ks \<Rightarrow> Inr (map (\<lambda>(k, y). (k, g y)) ks))"
    and x: "key' x = key (g x)" by simp_all
  show ?case
    by (cases "key (g x)"; cases "sort_keys key' xs") (simp_all add: x IH)
qed

lemma map_snd_map_pair:
  "map snd (map (\<lambda>(k, y). (k, g y)) r) = map g (map snd r)"
  by (induction r) auto

lemma list_sort_map:
  assumes "\<forall>x\<in>set xs. key' x = key (g x)"
  shows "list_sort key (map g xs) =
     (case list_sort key' xs of
        Inl e \<Rightarrow> Inl e
      | Inr r \<Rightarrow> Inr (map g r))"
proof (cases "sort_keys key' xs")
  case (Inl e)
  with sort_keys_map [of xs key' key g, OF assms] show ?thesis
    by (simp add: list_sort_def)
next
  case (Inr ks)
  with sort_keys_map [of xs key' key g, OF assms]
  have "sort_keys key (map g xs) = Inr (map (\<lambda>(k, y). (k, g y)) ks)" by simp
  then show ?thesis
    using Inr sort_run_map [of g ks "[]"]
    by (cases "sort_run ks []") (simp_all add: list_sort_def split_beta)
qed

lemma set_sort_insert: "sort_insert p qs = Inr r \<Longrightarrow> set r = insert p (set qs)"
proof (induction qs arbitrary: r)
  case Nil
  then show ?case by auto
next
  case (Cons q qs)
  show ?case
  proof (cases "py_lt (fst p) (fst q)")
    case (Inl e)
    with Cons.prems show ?thesis by simp
  next
    case (Inr b)
    show ?thesis
    proof (cases b)
      case True
      with Inr Cons.prems show ?thesis by auto
    next
      case False
      with Inr Cons.prems obtain r' where r': "sort_insert p qs = Inr r'" "r = q # r'"
        by (cases "sort_insert p qs") auto
      from Cons.IH [OF r'(1)] r'(2) show ?thesis by auto
    qed
  qed
qed

lemma set_sort_run: "sort_run ps qs = Inr r \<Longrightarrow> set r = set ps \<union> set qs"
proof (induction ps arbitrary: qs)
  case Nil
  then show ?case by simp
next
  case (Cons p ps)
  then obtain qs' where qs': "sort_insert p qs = Inr qs'" "sort_run ps qs' = Inr r"
    by (cases "sort_insert p qs") auto
  from Cons.IH [OF qs'(2)] set_sort_insert [OF qs'(1)] show ?case by auto
qed

lemma snd_sort_keys: "sort_keys key xs = Inr ks \<Longrightarrow> map snd ks = xs"
proof (induction xs arbitrary: ks)
  case Nil
  then show ?case by simp
next
  case (Cons x xs)
  then obtain k ks' where "key x = Inr k" "sort_keys key xs = Inr ks'" "ks = (k, x) # ks'"
    by (cases "key x"; cases "sort_keys key xs") auto
  with Cons.IH [of ks'] show ?case by simp
qed

lemma set_list_sort:
  assumes "list_sort key xs = Inr r"
  shows "set r = set xs"
proof -
  from assms obtain ks r' where ks: "sort_keys key xs = Inr ks" "sort_run ks [] = Inr r'"
      "r = map snd r'"
    by (cases "sort_keys key xs"; cases "sort_run (projr (sort_keys key xs)) []")
       (auto simp: list_sort_def)
  from set_sort_run [OF ks(2)] have "set r' = set ks" by simp
  then have "set (map snd r') = set (map snd ks)" by simp
  with snd_sort_keys [OF ks(1)] ks(3) show ?thesis by simp
qed

subsection \<open>The store\<close>

lemma new_value_simps:
  "fst (new_value h v) = values_end h"
  "value_at (snd (new_value h v)) = (value_at h)(values_end h := v)"
  "values_end (snd (new_value h v)) = Suc (values_end h)"
  "list_at (snd (new_value h v)) = list_at h"
  "lists_end (snd (new_value h v)) = lists_end h"
  "unifier_at (snd (new_value h v)) = unifier_at h"
  "unifiers_end (snd (new_value h v)) = unifiers_end h"
  by (simp_all add: new_value_def)

lemma list_append_simps:
  "value_at (list_append h l a) = value_at h"
  "values_end (list_append h l a) = values_end h"
  "list_at (list_append h l a) = (list_at h)(l := list_at h l @ [a])"
  "lists_end (list_append h l a) = lists_end h"
  "unifier_at (list_append h l a) = unifier_at h"
  "unifiers_end (list_append h l a) = unifiers_end h"
  by (simp_all add: list_append_def)

text \<open>
  The loop writes to the list \<^verbatim>\<open>unified_results\<close> and to new values only: with
  \<open>nl \<le> unified_results\<close> and \<open>nv \<le> values_end h\<close>, the lists below \<open>nl\<close>, the
  values below \<open>nv\<close> and the instances are as they were.
\<close>

lemma unify_loop_heap_frame:
  assumes "nl \<le> unified_results" and "nv \<le> values_end h"
  shows "(\<forall>a<nv. value_at (snd (unify_loop_heap lib entries unified_results h)) a = value_at h a) \<and>
         (\<forall>l<nl. list_at (snd (unify_loop_heap lib entries unified_results h)) l = list_at h l) \<and>
         unifier_at (snd (unify_loop_heap lib entries unified_results h)) = unifier_at h \<and>
         unifiers_end (snd (unify_loop_heap lib entries unified_results h)) = unifiers_end h \<and>
         lists_end (snd (unify_loop_heap lib entries unified_results h)) = lists_end h"
  using assms(2)
proof (induction entries arbitrary: h)
  case Nil
  then show ?case by simp
next
  case (Cons a entries)
  show ?case
  proof (cases "process_entry lib (value_at h a)")
    case (Inl e)
    show ?thesis
    proof (cases "handler (value_at h a) e")
      case (Inl e')
      with \<open>process_entry lib (value_at h a) = Inl e\<close> show ?thesis by simp
    next
      case (Inr u)
      with \<open>process_entry lib (value_at h a) = Inl e\<close> Cons.IH [OF Cons.prems]
      show ?thesis by simp
    qed
  next
    case (Inr normalized)
    let ?h = "list_append (snd (new_value h (JDict normalized))) unified_results (values_end h)"
    have "nv \<le> values_end ?h"
      using Cons.prems by (simp add: list_append_simps new_value_simps)
    from Cons.IH [OF this]
    have "(\<forall>a<nv. value_at (snd (unify_loop_heap lib entries unified_results ?h)) a = value_at h a) \<and>
         (\<forall>l<nl. list_at (snd (unify_loop_heap lib entries unified_results ?h)) l = list_at h l) \<and>
         unifier_at (snd (unify_loop_heap lib entries unified_results ?h)) = unifier_at h \<and>
         unifiers_end (snd (unify_loop_heap lib entries unified_results ?h)) = unifiers_end h \<and>
         lists_end (snd (unify_loop_heap lib entries unified_results ?h)) = lists_end h"
      using Cons.prems assms(1) by (simp add: list_append_simps new_value_simps)
    then show ?thesis
      using Inr by (simp add: new_value_def case_prod_beta)
  qed
qed

text \<open>
  The loop on the store does what \<open>unify_loop\<close> does on the values of the elements: the
  same exception, or the same records, as the values of the elements of
  \<^verbatim>\<open>unified_results\<close>.
\<close>

lemma unify_loop_heap_refines:
  assumes "\<forall>a\<in>set entries. a < values_end h"
    and "map (value_at h) (list_at h unified_results) = map JDict acc"
    and "\<forall>a\<in>set (list_at h unified_results). a < values_end h"
  shows "case fst (unify_loop_heap lib entries unified_results h) of
           Some e \<Rightarrow> unify_loop lib (map (value_at h) entries) acc = Inl e
         | None \<Rightarrow>
             (\<exists>out. unify_loop lib (map (value_at h) entries) acc = Inr out \<and>
                map (value_at (snd (unify_loop_heap lib entries unified_results h)))
                  (list_at (snd (unify_loop_heap lib entries unified_results h)) unified_results) =
                map JDict out)"
  using assms
proof (induction entries arbitrary: h acc)
  case Nil
  then show ?case by simp
next
  case (Cons a entries)
  show ?case
  proof (cases "process_entry lib (value_at h a)")
    case (Inl e)
    show ?thesis
    proof (cases "handler (value_at h a) e")
      case (Inl e')
      with \<open>process_entry lib (value_at h a) = Inl e\<close> show ?thesis
        by (simp cong: option.case_cong)
    next
      case (Inr u)
      from Cons.IH [of h acc] Cons.prems
      have "case fst (unify_loop_heap lib entries unified_results h) of
           Some e \<Rightarrow> unify_loop lib (map (value_at h) entries) acc = Inl e
         | None \<Rightarrow>
             (\<exists>out. unify_loop lib (map (value_at h) entries) acc = Inr out \<and>
                map (value_at (snd (unify_loop_heap lib entries unified_results h)))
                  (list_at (snd (unify_loop_heap lib entries unified_results h)) unified_results) =
                map JDict out)"
        by simp
      with Inr \<open>process_entry lib (value_at h a) = Inl e\<close> show ?thesis
        by (simp cong: option.case_cong)
    qed
  next
    case (Inr normalized)
    let ?h = "list_append (snd (new_value h (JDict normalized))) unified_results (values_end h)"
    have old: "value_at ?h b = value_at h b" if "b < values_end h" for b
      using that by (simp add: list_append_simps new_value_simps)
    have 1: "\<forall>a\<in>set entries. a < values_end ?h"
      using Cons.prems(1) by (simp add: list_append_simps new_value_simps less_Suc_eq)
    have "map (value_at ?h) (list_at h unified_results) = map (value_at h) (list_at h unified_results)"
      using Cons.prems(3) old by simp
    then have 2: "map (value_at ?h) (list_at ?h unified_results) = map JDict (acc @ [normalized])"
      using Cons.prems(2) by (simp add: list_append_simps new_value_simps)
    have 3: "\<forall>a\<in>set (list_at ?h unified_results). a < values_end ?h"
      using Cons.prems(3) by (auto simp: list_append_simps new_value_simps less_Suc_eq)
    have entries: "map (value_at ?h) entries = map (value_at h) entries"
      using Cons.prems(1) old by simp
    from Cons.IH [OF 1 2 3]
    have "case fst (unify_loop_heap lib entries unified_results ?h) of
           Some e \<Rightarrow> unify_loop lib (map (value_at h) entries) (acc @ [normalized]) = Inl e
         | None \<Rightarrow>
             (\<exists>out. unify_loop lib (map (value_at h) entries) (acc @ [normalized]) = Inr out \<and>
                map (value_at (snd (unify_loop_heap lib entries unified_results ?h)))
                  (list_at (snd (unify_loop_heap lib entries unified_results ?h)) unified_results) =
                map JDict out)"
      by (simp only: entries)
    then show ?thesis
      using Inr by (simp add: new_value_def case_prod_beta cong: option.case_cong)
  qed
qed

text \<open>
  The whole call: the objects that existed before it are as they were. An instance made
  by \<^verbatim>\<open>__init__\<close> still has the empty list in \<^verbatim>\<open>unified_data\<close> after a call on it.
\<close>

lemma unify_data_heap_frame:
  "(\<forall>a<values_end h. value_at (snd (unify_data_heap lib self data_list h)) a = value_at h a) \<and>
   (\<forall>l<lists_end h. list_at (snd (unify_data_heap lib self data_list h)) l = list_at h l) \<and>
   unifier_at (snd (unify_data_heap lib self data_list h)) = unifier_at h \<and>
   unifiers_end (snd (unify_data_heap lib self data_list h)) = unifiers_end h"
proof -
  let ?h1 = "snd (new_list h)"
  let ?h2 = "snd (unify_loop_heap lib (list_at h data_list) (lists_end h) ?h1)"
  have h1: "value_at ?h1 = value_at h" "values_end ?h1 = values_end h"
    "list_at ?h1 = (list_at h)(lists_end h := [])"
    "unifier_at ?h1 = unifier_at h" "unifiers_end ?h1 = unifiers_end h"
    by (simp_all add: new_list_def)
  have "(\<forall>a<values_end h. value_at ?h2 a = value_at h a) \<and>
         (\<forall>l<lists_end h. list_at ?h2 l = list_at h l) \<and>
         unifier_at ?h2 = unifier_at h \<and> unifiers_end ?h2 = unifiers_end h"
    using unify_loop_heap_frame
      [of "lists_end h" "lists_end h" "values_end h" ?h1 lib "list_at h data_list"]
    by (simp add: h1)
  then show ?thesis
    by (auto simp: unify_data_heap_def new_list_def list_assign_def case_prod_beta
        split: option.splits sum.splits)
qed

lemma unify_data_heap_after_init:
  assumes "init h = (self, h0)"
  shows "list_at (snd (unify_data_heap lib self data_list h0))
           (unifier_at (snd (unify_data_heap lib self data_list h0)) self) = []"
proof -
  from assms have "unifier_at h0 self = lists_end h" "list_at h0 (lists_end h) = []"
      "lists_end h < lists_end h0"
    by (auto simp: init_def new_list_def)
  with unify_data_heap_frame [of h0 lib self data_list] show ?thesis by simp
qed

text \<open>
  C8: a call of \<^verbatim>\<open>unify_data\<close> on a list of records leaves every object that existed
  before the call as it was: each value (so each input record), each list (so the input
  list, and the \<^verbatim>\<open>unified_data\<close> of the instance) and each instance; it writes to
  objects it has made itself only, and the list it returns is a new one. What it returns
  (the exception, or the records of the list it returns) is what the function
  \<open>unify_data\<close> of the input records alone gives, so that it depends on nothing a
  former call has left, and calls on equal inputs return equal outputs.
\<close>

theorem unify_data_heap_frame_and_result:
  assumes "data_list < lists_end h"
    and "\<forall>a\<in>set (list_at h data_list). a < values_end h"
  shows "\<exists>r h'. unify_data_heap lib self data_list h = (r, h') \<and>
           (\<forall>a<values_end h. value_at h' a = value_at h a) \<and>
           (\<forall>l<lists_end h. list_at h' l = list_at h l) \<and>
           unifier_at h' = unifier_at h \<and> unifiers_end h' = unifiers_end h \<and>
           (case r of
              Inl e \<Rightarrow> unify_data lib (map (value_at h) (list_at h data_list)) = Inl e
            | Inr unified_results \<Rightarrow>
                lists_end h \<le> unified_results \<and>
                (\<exists>out. map (value_at h') (list_at h' unified_results) = map JDict out \<and>
                   unify_data lib (map (value_at h) (list_at h data_list)) = Inr out))"
proof -
  let ?res = "lists_end h"
  let ?h1 = "snd (new_list h)"
  let ?entries = "list_at h data_list"
  let ?loop = "unify_loop_heap lib ?entries ?res ?h1"
  let ?h2 = "snd ?loop"
  let ?g = "\<lambda>a. case value_at ?h2 a of JDict d \<Rightarrow> d | _ \<Rightarrow> []"
  have h1: "value_at ?h1 = value_at h" "values_end ?h1 = values_end h"
    "list_at ?h1 = (list_at h)(?res := [])" "lists_end ?h1 = Suc ?res"
    "unifier_at ?h1 = unifier_at h" "unifiers_end ?h1 = unifiers_end h"
    by (simp_all add: new_list_def)
  have frame: "(\<forall>a<values_end h. value_at (snd (unify_data_heap lib self data_list h)) a =
                  value_at h a) \<and>
      (\<forall>l<lists_end h. list_at (snd (unify_data_heap lib self data_list h)) l = list_at h l) \<and>
      unifier_at (snd (unify_data_heap lib self data_list h)) = unifier_at h \<and>
      unifiers_end (snd (unify_data_heap lib self data_list h)) = unifiers_end h"
    by (rule unify_data_heap_frame)
  have refines: "case fst ?loop of
           Some e \<Rightarrow> unify_loop lib (map (value_at h) ?entries) [] = Inl e
         | None \<Rightarrow>
             (\<exists>out. unify_loop lib (map (value_at h) ?entries) [] = Inr out \<and>
                map (value_at ?h2) (list_at ?h2 ?res) = map JDict out)"
    using unify_loop_heap_refines [of ?entries ?h1 ?res "[]" lib] assms(2)
    by (simp add: h1 cong: option.case_cong)
  have call: "unify_data_heap lib self data_list h =
      (case fst ?loop of
         Some e \<Rightarrow> (Inl e, ?h2)
       | None \<Rightarrow>
          (case list_sort (timestamp_key ?h2) (list_at ?h2 ?res) of
             Inl e \<Rightarrow> (Inl e, ?h2)
           | Inr sorted_results \<Rightarrow> (Inr ?res, list_assign ?h2 ?res sorted_results)))"
    by (auto simp: unify_data_heap_def new_list_def case_prod_beta
        split: option.splits sum.splits)
  show ?thesis
  proof (cases "fst ?loop")
    case (Some e)
    with refines have "unify_data lib (map (value_at h) ?entries) = Inl e"
      by (simp add: unify_data_def)
    with call Some frame show ?thesis by simp
  next
    case None
    with refines obtain out where out: "unify_loop lib (map (value_at h) ?entries) [] = Inr out"
        "map (value_at ?h2) (list_at ?h2 ?res) = map JDict out"
      by auto
    let ?ns = "list_at ?h2 ?res"
    have rec: "value_at ?h2 a = JDict (?g a)" if "a \<in> set ?ns" for a
    proof -
      from that have "value_at ?h2 a \<in> set (map (value_at ?h2) ?ns)" by simp
      then have "value_at ?h2 a \<in> set (map JDict out)" by (simp only: out(2))
      then obtain d where "value_at ?h2 a = JDict d" by auto
      then show ?thesis by simp
    qed
    have g: "map ?g ?ns = out"
    proof -
      have "map JDict (map ?g ?ns) = map (value_at ?h2) ?ns"
        using rec by simp
      then have "map JDict (map ?g ?ns) = map JDict out" by (simp only: out(2))
      moreover have "inj JDict" by (simp add: inj_def)
      ultimately show ?thesis by (simp only: inj_map_eq_map)
    qed
    have keys: "\<forall>a\<in>set ?ns. timestamp_key ?h2 a = dict_getitem (?g a) ''timestamp''"
    proof
      fix a assume "a \<in> set ?ns"
      from rec [OF this] obtain d where "value_at ?h2 a = JDict d" by blast
      then show "timestamp_key ?h2 a = dict_getitem (?g a) ''timestamp''"
        by (simp add: timestamp_key_def)
    qed
    from list_sort_map [of ?ns "timestamp_key ?h2" "\<lambda>x. dict_getitem x ''timestamp''" ?g,
        OF keys]
    have sort: "unify_data lib (map (value_at h) ?entries) =
        (case list_sort (timestamp_key ?h2) ?ns of Inl e \<Rightarrow> Inl e | Inr r \<Rightarrow> Inr (map ?g r))"
      by (simp only: g unify_data_def out(1) sum.case)
    show ?thesis
    proof (cases "list_sort (timestamp_key ?h2) ?ns")
      case (Inl e)
      with call None sort frame show ?thesis by simp
    next
      case (Inr r)
      let ?h3 = "list_assign ?h2 ?res r"
      have h3: "value_at ?h3 = value_at ?h2" "list_at ?h3 = (list_at ?h2)(?res := r)"
        "unifier_at ?h3 = unifier_at ?h2" "unifiers_end ?h3 = unifiers_end ?h2"
        by (simp_all add: list_assign_def)
      have "set r = set ?ns" using Inr by (rule set_list_sort)
      then have "map (value_at ?h3) (list_at ?h3 ?res) = map JDict (map ?g r)"
        using rec by (simp add: h3)
      moreover have "unify_data lib (map (value_at h) ?entries) = Inr (map ?g r)"
        using sort Inr by simp
      moreover have "unify_data_heap lib self data_list h = (Inr ?res, ?h3)"
        using call None Inr by simp
      ultimately show ?thesis
        using frame by (simp add: h3)
    qed
  qed
qed

theorem unify_data_heap_frame_and_result_witness:
  "\<exists>r h'. unify_data_heap utc_host 0 0
       \<lparr>value_at = (\<lambda>a. JDict [(''timestamp'', JInt (7 - int a))]), values_end = 2,
         list_at = (\<lambda>l. [0, 1]), lists_end = 1,
         unifier_at = (\<lambda>u. 0), unifiers_end = 1\<rparr> = (r, h') \<and>
     (\<forall>a<values_end
       \<lparr>value_at = (\<lambda>a. JDict [(''timestamp'', JInt (7 - int a))]), values_end = 2,
         list_at = (\<lambda>l. [0, 1]), lists_end = 1,
         unifier_at = (\<lambda>u. 0), unifiers_end = 1\<rparr>. value_at h' a = value_at
       \<lparr>value_at = (\<lambda>a. JDict [(''timestamp'', JInt (7 - int a))]), values_end = 2,
         list_at = (\<lambda>l. [0, 1]), lists_end = 1,
         unifier_at = (\<lambda>u. 0), unifiers_end = 1\<rparr> a) \<and>
     (\<forall>l<lists_end
       \<lparr>value_at = (\<lambda>a. JDict [(''timestamp'', JInt (7 - int a))]), values_end = 2,
         list_at = (\<lambda>l. [0, 1]), lists_end = 1,
         unifier_at = (\<lambda>u. 0), unifiers_end = 1\<rparr>. list_at h' l = list_at
       \<lparr>value_at = (\<lambda>a. JDict [(''timestamp'', JInt (7 - int a))]), values_end = 2,
         list_at = (\<lambda>l. [0, 1]), lists_end = 1,
         unifier_at = (\<lambda>u. 0), unifiers_end = 1\<rparr> l) \<and>
     unifier_at h' = unifier_at
       \<lparr>value_at = (\<lambda>a. JDict [(''timestamp'', JInt (7 - int a))]), values_end = 2,
         list_at = (\<lambda>l. [0, 1]), lists_end = 1,
         unifier_at = (\<lambda>u. 0), unifiers_end = 1\<rparr> \<and>
     unifiers_end h' = unifiers_end
       \<lparr>value_at = (\<lambda>a. JDict [(''timestamp'', JInt (7 - int a))]), values_end = 2,
         list_at = (\<lambda>l. [0, 1]), lists_end = 1,
         unifier_at = (\<lambda>u. 0), unifiers_end = 1\<rparr> \<and>
     (case r of
        Inl e \<Rightarrow> unify_data utc_host (map (value_at
       \<lparr>value_at = (\<lambda>a. JDict [(''timestamp'', JInt (7 - int a))]), values_end = 2,
         list_at = (\<lambda>l. [0, 1]), lists_end = 1,
         unifier_at = (\<lambda>u. 0), unifiers_end = 1\<rparr>) (list_at
       \<lparr>value_at = (\<lambda>a. JDict [(''timestamp'', JInt (7 - int a))]), values_end = 2,
         list_at = (\<lambda>l. [0, 1]), lists_end = 1,
         unifier_at = (\<lambda>u. 0), unifiers_end = 1\<rparr> 0)) = Inl e
      | Inr unified_results \<Rightarrow>
          lists_end
       \<lparr>value_at = (\<lambda>a. JDict [(''timestamp'', JInt (7 - int a))]), values_end = 2,
         list_at = (\<lambda>l. [0, 1]), lists_end = 1,
         unifier_at = (\<lambda>u. 0), unifiers_end = 1\<rparr> \<le> unified_results \<and>
          (\<exists>out. map (value_at h') (list_at h' unified_results) = map JDict out \<and>
             unify_data utc_host (map (value_at
       \<lparr>value_at = (\<lambda>a. JDict [(''timestamp'', JInt (7 - int a))]), values_end = 2,
         list_at = (\<lambda>l. [0, 1]), lists_end = 1,
         unifier_at = (\<lambda>u. 0), unifiers_end = 1\<rparr>) (list_at
       \<lparr>value_at = (\<lambda>a. JDict [(''timestamp'', JInt (7 - int a))]), values_end = 2,
         list_at = (\<lambda>l. [0, 1]), lists_end = 1,
         unifier_at = (\<lambda>u. 0), unifiers_end = 1\<rparr> 0)) = Inr out))"
  by (rule unify_data_heap_frame_and_result) simp_all

subsection \<open>The host's time zone\<close>

lemmas library_defs =
  library_def parse_datetime_def number_def digit_def parse_fraction_def parse_offset_def
  epoch_millis_def trunc_toward_zero_def seconds_since_epoch_def days_before_year_def
  days_before_month_def days_in_month_def is_leap_def

text \<open>
  On a host in the zone of UTC the library so described gives what \<open>utc_host\<close>
  tabulates.
\<close>

lemma library_utc_host:
  "library (\<lambda>t. 0) ''2023-10-15T14:30:45'' = utc_host ''2023-10-15T14:30:45''"
  "library (\<lambda>t. 0) ''2023-10-15Tbad'' = utc_host ''2023-10-15Tbad''"
  by (simp_all add: library_defs utc_host_def)

text \<open>
  A text that ends in \<^verbatim>\<open>Z\<close> and has no offset is parsed, the \<^verbatim>\<open>Z\<close> removed (lines 27
  and 28), as a local time: its milliseconds depend on the zone of the host.
\<close>

lemma iso_to_milliseconds_Z_depends_on_host:
  "iso_to_milliseconds (library (\<lambda>t. 0)) (JStr ''2023-10-15T14:30:45Z'') = Inr 1697380245000"
  "iso_to_milliseconds (library (\<lambda>t. 7200)) (JStr ''2023-10-15T14:30:45Z'') = Inr 1697373045000"
  by (simp_all add: iso_to_milliseconds_def endswith_def library_defs)

text \<open>
  C7: for every text that, once a final \<^verbatim>\<open>Z\<close> is removed, conforms to the grammar and
  carries an offset from UTC, \<open>iso_to_milliseconds\<close> returns an integer, and the same
  integer on any two hosts, whatever their time zones.
\<close>

theorem iso_to_milliseconds_offset_host_independent:
  assumes "parse_datetime (if endswith s ''Z'' then butlast s else s) = Some dt"
    and "utc_offset dt = Some off"
  shows "iso_to_milliseconds (library zone1) (JStr s) =
           iso_to_milliseconds (library zone2) (JStr s) \<and>
         (\<exists>ms. iso_to_milliseconds (library zone1) (JStr s) = Inr ms)"
  using assms
  by (simp add: iso_to_milliseconds_def library_def epoch_millis_def Let_def)

theorem iso_to_milliseconds_offset_host_independent_witness:
  "iso_to_milliseconds (library (\<lambda>t. 0)) (JStr ''2023-10-15T14:30:45.123+02:00'') =
     iso_to_milliseconds (library (\<lambda>t. - 18000)) (JStr ''2023-10-15T14:30:45.123+02:00'') \<and>
   (\<exists>ms. iso_to_milliseconds (library (\<lambda>t. 0)) (JStr ''2023-10-15T14:30:45.123+02:00'') =
      Inr ms) \<and>
   iso_to_milliseconds (library (\<lambda>t. - 18000)) (JStr ''2023-10-15T14:30:45.123+02:00'') =
     Inr 1697373045123"
proof -
  have p: "parse_datetime
      (if endswith ''2023-10-15T14:30:45.123+02:00'' ''Z''
       then butlast ''2023-10-15T14:30:45.123+02:00'' else ''2023-10-15T14:30:45.123+02:00'') =
      Some \<lparr>wall_seconds = 1697380245, fraction = 123 / 1000, utc_offset = Some 7200\<rparr>"
    by (simp add: endswith_def library_defs)
  have "iso_to_milliseconds (library (\<lambda>t. - 18000)) (JStr ''2023-10-15T14:30:45.123+02:00'') =
     Inr 1697373045123"
    by (simp add: iso_to_milliseconds_def endswith_def library_defs)
  with iso_to_milliseconds_offset_host_independent
    [OF p, of 7200 "\<lambda>t. 0" "\<lambda>t. - 18000"]
  show ?thesis by simp
qed

end
